theory Spec2Isabelle
  imports Complex_Main
begin

section \<open>JavaScript values the code relies on\<close>

text \<open>
  A JavaScript number is an IEEE 754 double: NaN, an infinity, or a finite value, kept
  here as the rational it stands for (the sign of zero is not kept; nothing below looks
  at it). \<^verbatim>\<open>Date.now()\<close> is an integer number of milliseconds and is an \<open>int\<close>.
\<close>

datatype jsnum = Num rat | NaN | PosInf | NegInf

text \<open>
  The double nearest to a rational, ties to the even significand: 53 significant bits,
  the unit in the last place never below 2 to the power -1074, and an infinity from
  2 to the power 1024 on. This is how the sum of two doubles is rounded.
\<close>

fun bit_length :: "nat \<Rightarrow> nat" where
  "bit_length n = (if n = 0 then 0 else Suc (bit_length (n div 2)))"

declare bit_length.simps [simp del]

definition pow2 :: "int \<Rightarrow> rat" where
  "pow2 e = (if 0 \<le> e then 2 ^ nat e else 1 / 2 ^ nat (- e))"

definition round_double :: "rat \<Rightarrow> jsnum" where
  "round_double x =
     (let a = \<bar>x\<bar>;
          e = max (int (bit_length (nat \<lfloor>a * 2 ^ 1074\<rfloor>)) - 53) 0 - 1074;
          q = a / pow2 e;
          n = \<lfloor>q\<rfloor>;
          m = (if q - of_int n > 1 / 2 \<or> (q - of_int n = 1 / 2 \<and> odd n) then n + 1 else n);
          y = of_int m * pow2 e
      in if 2 ^ 1024 \<le> y then (if 0 < x then PosInf else NegInf)
         else Num (if 0 \<le> x then y else - y))"

text \<open>
  \<^verbatim>\<open>now + proxyConfig.tokenCacheDurationMs\<close>: a number plus \<^verbatim>\<open>undefined\<close> is NaN, and so
  is a number plus NaN; a finite number plus an infinity is that infinity; the sum of two
  finite numbers is rounded to a double.
\<close>

fun js_add :: "int \<Rightarrow> jsnum option \<Rightarrow> jsnum" where
  "js_add a None = NaN"
| "js_add a (Some NaN) = NaN"
| "js_add a (Some PosInf) = PosInf"
| "js_add a (Some NegInf) = NegInf"
| "js_add a (Some (Num b)) = round_double (of_int a + b)"

text \<open>\<^verbatim>\<open>now < tokenExpiry\<close>: every comparison with NaN is false.\<close>

fun js_less :: "int \<Rightarrow> jsnum \<Rightarrow> bool" where
  "js_less a NaN = False"
| "js_less a PosInf = True"
| "js_less a NegInf = False"
| "js_less a (Num b) = (of_int a < b)"

text \<open>A value inside a template literal: \<^verbatim>\<open>${x}\<close> of an absent property reads undefined.\<close>

fun js_template :: "string option \<Rightarrow> string" where
  "js_template None = ''undefined''"
| "js_template (Some s) = s"

text \<open>
  \<^verbatim>\<open>String.prototype.trim\<close> and \<^verbatim>\<open>toLowerCase\<close> on strings of 8-bit characters:
  white space is tab, line feed, vertical tab, form feed, carriage return, space and
  the no-break space; the letters that change case are A to Z (header names are ASCII).
\<close>

definition is_space :: "char \<Rightarrow> bool" where
  "is_space c = ((of_char c :: nat) \<in> {9, 10, 11, 12, 13, 32, 160})"

definition trim :: "string \<Rightarrow> string" where
  "trim s = rev (dropWhile is_space (rev (dropWhile is_space s)))"

definition lower_char :: "char \<Rightarrow> char" where
  "lower_char c =
     (case map_of (zip ''ABCDEFGHIJKLMNOPQRSTUVWXYZ'' ''abcdefghijklmnopqrstuvwxyz'') c of
        None \<Rightarrow> c
      | Some l \<Rightarrow> l)"

definition toLowerCase :: "string \<Rightarrow> string" where
  "toLowerCase s = map lower_char s"

section \<open>Configuration (index.ts, ProxyConfig and loadConfig)\<close>

text \<open>
  The \<^verbatim>\<open>proxy\<close> section of the YAML file, as the running program sees it. The
  TypeScript interface declares nine fields, but \<^verbatim>\<open>yaml.load(...) as {proxy: ProxyConfig}\<close>
  checks nothing: a key that the file does not give is simply not a property of the
  object. Each field is therefore an option, \<open>None\<close> standing for an absent key
  (\<^verbatim>\<open>field in config.proxy\<close> is false and reading the property gives \<^verbatim>\<open>undefined\<close>).
  Values that are present have the type the interface declares; a port is an integer,
  the cache duration is any JavaScript number.
\<close>

record ProxyConfig =
  listenPort :: "int option"
  targetHost :: "string option"
  targetPort :: "int option"
  targetScheme :: "string option"
  cloudflaredAppUrl :: "string option"
  tokenCacheDurationMs :: "jsnum option"
  cookieName :: "string option"
  clickhouseUsername :: "string option"
  clickhousePassword :: "string option"

text \<open>\<^verbatim>\<open>field in config.proxy\<close> for the property names of the interface.\<close>

definition has_field :: "string \<Rightarrow> ProxyConfig \<Rightarrow> bool" where
  "has_field field p =
     (if field = ''listenPort'' then listenPort p \<noteq> None
      else if field = ''targetHost'' then targetHost p \<noteq> None
      else if field = ''targetPort'' then targetPort p \<noteq> None
      else if field = ''targetScheme'' then targetScheme p \<noteq> None
      else if field = ''cloudflaredAppUrl'' then cloudflaredAppUrl p \<noteq> None
      else if field = ''tokenCacheDurationMs'' then tokenCacheDurationMs p \<noteq> None
      else if field = ''cookieName'' then cookieName p \<noteq> None
      else if field = ''clickhouseUsername'' then clickhouseUsername p \<noteq> None
      else if field = ''clickhousePassword'' then clickhousePassword p \<noteq> None
      else False)"

text \<open>The array \<^verbatim>\<open>required\<close> of loadConfig, in the order of the source.\<close>

definition required :: "string list" where
  "required =
     [''listenPort'', ''targetHost'', ''targetPort'', ''cloudflaredAppUrl'',
      ''clickhouseUsername'', ''clickhousePassword'']"

datatype config_error = ProxyMissing | FieldMissing string

text \<open>The \<^verbatim>\<open>message\<close> of the Error that loadConfig throws.\<close>

fun message :: "config_error \<Rightarrow> string" where
  "message ProxyMissing = ''Proxy configuration is missing in the config file.''"
| "message (FieldMissing field) =
     ''Required field '' @ [CHR 0x27] @ field @ [CHR 0x27] @
     '' is missing from proxy configuration.''"

text \<open>
  The loop \<^verbatim>\<open>for (const field of required)\<close>: the first name that is not a key of the
  object throws.
\<close>

fun check_required :: "string list \<Rightarrow> ProxyConfig \<Rightarrow> config_error option" where
  "check_required [] p = None"
| "check_required (field # rest) p =
     (if \<not> has_field field p then Some (FieldMissing field) else check_required rest p)"

text \<open>
  loadConfig, from the parsed document on: the argument is \<^verbatim>\<open>config.proxy\<close>, \<open>None\<close>
  when it is missing (falsy). The result is the object itself, \<^verbatim>\<open>return config.proxy\<close>.
\<close>

definition loadConfig :: "ProxyConfig option \<Rightarrow> config_error + ProxyConfig" where
  "loadConfig proxy =
     (case proxy of
        None \<Rightarrow> Inl ProxyMissing
      | Some p \<Rightarrow>
          (case check_required required p of
             Some e \<Rightarrow> Inl e
           | None \<Rightarrow> Inr p))"

section \<open>Token cache (fetchToken and getToken)\<close>

text \<open>
  What \<^verbatim>\<open>await execPromise(command)\<close> can do: reject (the command could not be run or
  exited with a non-zero code; the argument is the error's message), or resolve with the
  two output streams.
\<close>

datatype exec_result = ExecRejected string | ExecResolved string string

datatype fetch_error = ExecError string | StderrError string | EmptyToken

definition token_command :: "string option \<Rightarrow> string" where
  "token_command appUrl = ''cloudflared access token --app='' @ js_template appUrl"

text \<open>fetchToken once the command has run: the result is the token or the thrown error.\<close>

fun fetchToken :: "exec_result \<Rightarrow> fetch_error + string" where
  "fetchToken (ExecRejected e) = Inl (ExecError e)"
| "fetchToken (ExecResolved stdout stderr) =
     (if stderr \<noteq> [] then Inl (StderrError (''cloudflared stderr: '' @ stderr))
      else let token = trim stdout in
        if token = [] then Inl EmptyToken else Inr token)"

text \<open>
  The three ways the command can fail: it is rejected (non-zero exit), it writes to its
  error stream, or its output is empty once trimmed.
\<close>

definition fetch_fails :: "exec_result \<Rightarrow> bool" where
  "fetch_fails r =
     (case r of
        ExecRejected e \<Rightarrow> True
      | ExecResolved stdout stderr \<Rightarrow> stderr \<noteq> [] \<or> trim stdout = [])"

text \<open>The two module-level variables.\<close>

record token_state =
  cachedToken :: "string option"
  tokenExpiry :: jsnum

definition initial_state :: token_state where
  "initial_state = \<lparr>cachedToken = None, tokenExpiry = Num 0\<rparr>"

text \<open>
  Truthiness of \<^verbatim>\<open>string | null\<close>: null and the empty string are falsy.
\<close>

fun truthy :: "string option \<Rightarrow> bool" where
  "truthy None = False"
| "truthy (Some s) = (s \<noteq> [])"

text \<open>
  getToken. \<open>now\<close> is the value of \<^verbatim>\<open>Date.now()\<close> read on entry; \<open>exec\<close> is the
  outside world, giving the outcome of a command if it is run. The result is the value
  returned, the new state of the two variables, and the commands that were run, in order.
\<close>

definition getToken ::
  "ProxyConfig \<Rightarrow> int \<Rightarrow> (string \<Rightarrow> exec_result) \<Rightarrow> token_state
     \<Rightarrow> string option \<times> token_state \<times> string list" where
  "getToken proxyConfig now exec s =
     (if truthy (cachedToken s) \<and> js_less now (tokenExpiry s) then (cachedToken s, s, [])
      else
        let command = token_command (cloudflaredAppUrl proxyConfig) in
        (case fetchToken (exec command) of
           Inr newToken \<Rightarrow>
             (Some newToken,
              \<lparr>cachedToken = Some newToken,
               tokenExpiry = js_add now (tokenCacheDurationMs proxyConfig)\<rparr>,
              [command])
         | Inl error \<Rightarrow>
             (None, \<lparr>cachedToken = None, tokenExpiry = Num 0\<rparr>, [command])))"

text \<open>The states the two variables can be in: the initial one, and any state a call leaves.\<close>

inductive reachable :: "token_state \<Rightarrow> bool" where
  start: "reachable initial_state"
| call: "reachable s \<Longrightarrow> getToken proxyConfig now exec s = (r, s', cmds) \<Longrightarrow> reachable s'"

section \<open>Forwarding handler (startProxyServer)\<close>

text \<open>
  A header value is a string, an array of strings, or undefined. A header object is a
  JavaScript object: keys are compared exactly (case matters), each key occurs once, and
  the keys keep the order in which they were first assigned (JavaScript lists keys that
  are array indices first; no property proved below depends on where such a key stands).
\<close>

datatype hval = HUndefined | HStr string | HArr "string list"

type_synonym header_obj = "(string \<times> hval) list"

text \<open>\<^verbatim>\<open>obj[key]\<close> and \<^verbatim>\<open>obj[key] = v\<close>.\<close>

definition obj_get :: "header_obj \<Rightarrow> string \<Rightarrow> hval" where
  "obj_get obj key = (case map_of obj key of None \<Rightarrow> HUndefined | Some v \<Rightarrow> v)"

fun obj_set :: "string \<Rightarrow> 'v \<Rightarrow> (string \<times> 'v) list \<Rightarrow> (string \<times> 'v) list" where
  "obj_set key v [] = [(key, v)]"
| "obj_set key v ((k, w) # rest) =
     (if k = key then (k, v) # rest else (k, w) # obj_set key v rest)"

text \<open>\<^verbatim>\<open>Object.keys(obj)\<close>.\<close>

definition object_keys :: "header_obj \<Rightarrow> string list" where
  "object_keys obj = remdups (map fst obj)"

record client_request =
  req_method :: string
  req_url :: string
  req_headers :: header_obj

text \<open>The test of the \<^verbatim>\<open>forEach\<close> callback on the lower-cased key.\<close>

definition kept :: "string \<Rightarrow> bool" where
  "kept lowerKey =
     (lowerKey \<noteq> ''proxy-connection'' \<and> lowerKey \<noteq> ''transfer-encoding'' \<and>
      lowerKey \<noteq> ''host'' \<and> lowerKey \<noteq> ''authorization'')"

text \<open>
  \<^verbatim>\<open>Object.keys(clientReq.headers).forEach((key) => ...)\<close>, with \<open>headers\<close> the object
  being filled.
\<close>

fun copy_headers :: "string list \<Rightarrow> header_obj \<Rightarrow> header_obj \<Rightarrow> header_obj" where
  "copy_headers [] inbound headers = headers"
| "copy_headers (key # keys) inbound headers =
     (let lowerKey = toLowerCase key in
      copy_headers keys inbound
        (if kept lowerKey then obj_set key (obj_get inbound key) headers else headers))"

fun cfg_value :: "string option \<Rightarrow> hval" where
  "cfg_value None = HUndefined"
| "cfg_value (Some s) = HStr s"

text \<open>Lines 139 to 158: the object \<^verbatim>\<open>headers\<close> given to the outbound request.\<close>

definition build_headers :: "ProxyConfig \<Rightarrow> string \<Rightarrow> header_obj \<Rightarrow> header_obj" where
  "build_headers proxyConfig cfToken inbound =
     (let h0 = copy_headers (object_keys inbound) inbound [];
          h1 = obj_set ''Host'' (cfg_value (targetHost proxyConfig)) h0;
          h2 = obj_set ''Cookie''
                 (HStr (js_template (cookieName proxyConfig) @ ''='' @ cfToken)) h1;
          h3 = obj_set ''X-ClickHouse-User'' (cfg_value (clickhouseUsername proxyConfig)) h2
      in obj_set ''X-ClickHouse-Key'' (cfg_value (clickhousePassword proxyConfig)) h3)"

text \<open>The \<^verbatim>\<open>options\<close> object, and the module whose \<^verbatim>\<open>request\<close> function is called.\<close>

record request_options =
  hostname :: "string option"
  port :: "int option"
  path :: string
  opt_method :: string
  opt_headers :: header_obj
  rejectUnauthorized :: bool

datatype client_module = Http_module | Https_module

text \<open>What a callback does to the outside, in order.\<close>

datatype action =
    WriteHead nat header_obj
  | End string
  | Request client_module request_options
  | PipeRequestBody
  | PipeResponseBody

definition text_plain :: header_obj where
  "text_plain = [(''Content-Type'', HStr ''text/plain'')]"

definition make_options :: "ProxyConfig \<Rightarrow> string \<Rightarrow> client_request \<Rightarrow> request_options" where
  "make_options proxyConfig cfToken clientReq =
     \<lparr>hostname = targetHost proxyConfig,
      port = targetPort proxyConfig,
      path = req_url clientReq,
      opt_method = req_method clientReq,
      opt_headers = build_headers proxyConfig cfToken (req_headers clientReq),
      rejectUnauthorized = True\<rparr>"

text \<open>
  The request listener up to \<^verbatim>\<open>clientReq.pipe(proxyReq)\<close>. \<^verbatim>\<open>!cfToken\<close> holds for null
  and for the empty string.
\<close>

definition handle_request ::
  "ProxyConfig \<Rightarrow> int \<Rightarrow> (string \<Rightarrow> exec_result) \<Rightarrow> token_state \<Rightarrow> client_request
     \<Rightarrow> action list \<times> token_state \<times> string list" where
  "handle_request proxyConfig now exec s clientReq =
     (case getToken proxyConfig now exec s of
        (cfToken, s', cmds) \<Rightarrow>
          (case cfToken of
             Some tok \<Rightarrow>
               if tok = [] then
                 ([WriteHead 500 text_plain,
                   End ''Internal Server Error: Could not obtain authorization token.''],
                  s', cmds)
               else
                 ([Request Https_module (make_options proxyConfig tok clientReq),
                   PipeRequestBody],
                  s', cmds)
           | None \<Rightarrow>
               ([WriteHead 500 text_plain,
                 End ''Internal Server Error: Could not obtain authorization token.''],
                s', cmds)))"

text \<open>
  The response callback of the outbound request. The call of \<^verbatim>\<open>writeHead\<close> is recorded
  as it is made; whether Node accepts the status (it takes 100 to 999) is not modelled.
\<close>

record upstream_response =
  statusCode :: "nat option"
  res_headers :: header_obj

text \<open>\<^verbatim>\<open>proxyRes.statusCode || 200\<close>: undefined and 0 are falsy.\<close>

fun or_default :: "nat option \<Rightarrow> nat \<Rightarrow> nat" where
  "or_default None d = d"
| "or_default (Some n) d = (if n = 0 then d else n)"

definition on_response :: "upstream_response \<Rightarrow> action list" where
  "on_response proxyRes =
     [WriteHead (or_default (statusCode proxyRes) 200) (res_headers proxyRes),
      PipeResponseBody]"

text \<open>
  The \<^verbatim>\<open>error\<close> listener of the outbound request; \<open>headersSent\<close> is
  \<^verbatim>\<open>clientRes.headersSent\<close> when it runs, \<open>err_message\<close> is \<^verbatim>\<open>err.message\<close>.
\<close>

definition on_error :: "bool \<Rightarrow> string \<Rightarrow> action list" where
  "on_error headersSent err_message =
     (if \<not> headersSent then [WriteHead 502 text_plain] else []) @
     [End (''Bad Gateway: '' @ err_message)]"

text \<open>The text that a list of actions hands to the client as body data.\<close>

fun body_data :: "action list \<Rightarrow> string" where
  "body_data [] = []"
| "body_data (End t # as) = t @ body_data as"
| "body_data (a # as) = body_data as"

fun is_request :: "action \<Rightarrow> bool" where
  "is_request (Request m opts) = True"
| "is_request a = False"

section \<open>Start-up (main)\<close>

datatype startup_event = Listen "int option" string | Exit nat

text \<open>
  main: a loadConfig that throws rejects the promise of main, whose \<^verbatim>\<open>catch\<close> calls
  \<^verbatim>\<open>process.exit(1)\<close>; otherwise the first token is asked for and the server listens on
  0.0.0.0 whatever the answer.
\<close>

definition main ::
  "ProxyConfig option \<Rightarrow> int \<Rightarrow> (string \<Rightarrow> exec_result)
     \<Rightarrow> startup_event list \<times> token_state" where
  "main proxy now exec =
     (case loadConfig proxy of
        Inl e \<Rightarrow> ([Exit 1], initial_state)
      | Inr proxyConfig \<Rightarrow>
          (case getToken proxyConfig now exec initial_state of
             (initialToken, s, cmds) \<Rightarrow> ([Listen (listenPort proxyConfig) ''0.0.0.0''], s)))"

section \<open>What Node sends for a header object\<close>

text \<open>
  The object is handed to \<^verbatim>\<open>https.request\<close>. That function is Node's, not the
  repository's: its \<^verbatim>\<open>ClientRequest\<close> constructor calls
  \<^verbatim>\<open>setHeader(key, headers[key])\<close> for every key of the \<^verbatim>\<open>headers\<close> option, in the
  order of the keys, and \<^verbatim>\<open>setHeader\<close> files a header under its lower-cased name, so
  that a later key replaces an earlier one that differs from it in letter case only. An
  entry of the result is the lower-cased name, the name as it is written on the wire,
  and the value.
\<close>

type_synonym out_headers = "(string \<times> string \<times> hval) list"

definition setHeader :: "string \<Rightarrow> hval \<Rightarrow> out_headers \<Rightarrow> out_headers" where
  "setHeader name v out = obj_set (toLowerCase name) (name, v) out"

fun set_headers :: "header_obj \<Rightarrow> out_headers \<Rightarrow> out_headers" where
  "set_headers [] out = out"
| "set_headers ((key, v) # rest) out = set_headers rest (setHeader key v out)"

definition sent_headers :: "header_obj \<Rightarrow> out_headers" where
  "sent_headers headers = set_headers headers []"

section \<open>Example inputs\<close>

text \<open>The configuration of the README, and variants of it with keys changed or left out.\<close>

definition example_config :: ProxyConfig where
  "example_config =
     \<lparr>listenPort = Some 9090,
      targetHost = Some ''your-clickhouse-host.example.com'',
      targetPort = Some 443,
      targetScheme = Some ''https'',
      cloudflaredAppUrl = Some ''https://your-clickhouse-host.example.com'',
      tokenCacheDurationMs = Some (Num 300000),
      cookieName = Some ''CF_Authorization'',
      clickhouseUsername = Some ''your-username'',
      clickhousePassword = Some ''your-password''\<rparr>"

definition http_config :: ProxyConfig where
  "http_config = example_config\<lparr>targetScheme := Some ''http''\<rparr>"

definition no_scheme_config :: ProxyConfig where
  "no_scheme_config = example_config\<lparr>targetScheme := None\<rparr>"

definition no_host_config :: ProxyConfig where
  "no_host_config = example_config\<lparr>targetHost := None\<rparr>"

definition two_missing_config :: ProxyConfig where
  "two_missing_config = example_config\<lparr>targetHost := None, clickhousePassword := None\<rparr>"

definition bare_config :: ProxyConfig where
  "bare_config = example_config\<lparr>tokenCacheDurationMs := None, cookieName := None\<rparr>"

text \<open>
  Four outcomes of the cloudflared command: a token on standard output, a non-zero exit,
  text on standard error, and nothing but a line feed on standard output.
\<close>

definition exec_ok :: "string \<Rightarrow> exec_result" where
  "exec_ok command = ExecResolved ''tok123'' []"

definition exec_exit1 :: "string \<Rightarrow> exec_result" where
  "exec_exit1 command = ExecRejected (''Command failed: '' @ command)"

definition exec_stderr :: "string \<Rightarrow> exec_result" where
  "exec_stderr command =
     ExecResolved ''tok123'' ''Unable to find token for provided application.''"

definition exec_empty :: "string \<Rightarrow> exec_result" where
  "exec_empty command = ExecResolved [CHR 0x0A] []"

text \<open>The cache after a first successful call at time 1000 with the README configuration.\<close>

definition fresh_state :: token_state where
  "fresh_state = \<lparr>cachedToken = Some ''tok123'', tokenExpiry = Num 301000\<rparr>"

text \<open>
  A request as Node hands it to the listener: header names arrive lower-cased.
\<close>

definition example_request :: client_request where
  "example_request =
     \<lparr>req_method = ''GET'',
      req_url = ''/?query=SELECT+1'',
      req_headers =
        [(''host'', HStr ''localhost:9090''),
         (''user-agent'', HStr ''curl/8.5.0''),
         (''accept'', HStr ''*/*''),
         (''authorization'', HStr ''Basic Y2xpZW50OnNlY3JldA==''),
         (''proxy-connection'', HStr ''keep-alive''),
         (''transfer-encoding'', HStr ''chunked'')]\<rparr>"

text \<open>
  A request whose header names are not all in lower case, with a cookie and a ClickHouse
  user of the client's own.
\<close>

definition mixed_request :: client_request where
  "mixed_request =
     \<lparr>req_method = ''POST'',
      req_url = ''/?query=INSERT+INTO+t+FORMAT+CSV'',
      req_headers =
        [(''Host'', HStr ''localhost:9090''),
         (''User-Agent'', HStr ''curl/8.5.0''),
         (''Authorization'', HStr ''Basic Y2xpZW50OnNlY3JldA==''),
         (''Proxy-Connection'', HStr ''keep-alive''),
         (''transfer-encoding'', HStr ''chunked''),
         (''COOKIE'', HStr ''session=abc''),
         (''x-clickhouse-user'', HStr ''root'')]\<rparr>"

lemmas example_defs =
  example_config_def http_config_def no_scheme_config_def no_host_config_def
  two_missing_config_def bare_config_def
  exec_ok_def exec_exit1_def exec_stderr_def exec_empty_def fresh_state_def
  example_request_def mixed_request_def initial_state_def

lemmas eval_defs =
  getToken_def token_command_def trim_def is_space_def handle_request_def make_options_def
  build_headers_def object_keys_def obj_get_def kept_def toLowerCase_def lower_char_def
  text_plain_def loadConfig_def required_def has_field_def main_def on_error_def
  on_response_def

section \<open>Rounding\<close>

lemma bit_length_0: "bit_length 0 = 0"
  by (simp add: bit_length.simps)

lemma bit_length_pos: "0 < n \<Longrightarrow> bit_length n = Suc (bit_length (n div 2))"
  by (subst bit_length.simps) simp

lemma bit_length_le: "n < 2 ^ k \<Longrightarrow> bit_length n \<le> k"
proof (induction k arbitrary: n)
  case 0
  then show ?case by (simp add: bit_length_0)
next
  case (Suc k)
  show ?case
  proof (cases "n = 0")
    case True
    then show ?thesis by (simp add: bit_length_0)
  next
    case False
    from Suc.prems have "n div 2 < 2 ^ k" by simp
    then have "bit_length (n div 2) \<le> k" by (rule Suc.IH)
    with False show ?thesis by (simp add: bit_length_pos)
  qed
qed

lemma bit_length_power: "bit_length (2 ^ k) = Suc k"
  by (induction k) (simp_all add: bit_length_pos bit_length_0)

text \<open>A number that is a whole multiple of its unit in the last place is not changed.\<close>

lemma round_double_unit:
  assumes e: "e = max (int (bit_length (nat \<lfloor>\<bar>x\<bar> * 2 ^ 1074\<rfloor>)) - 53) 0 - 1074"
    and q: "\<bar>x\<bar> / pow2 e = of_int n" and small: "\<bar>x\<bar> < 2 ^ 1024"
  shows "round_double x = Num x"
proof -
  have p: "pow2 e \<noteq> 0"
    by (simp add: pow2_def)
  from q p have y: "of_int n * pow2 e = \<bar>x\<bar>"
    by (simp add: field_simps)
  have fl: "\<lfloor>\<bar>x\<bar> / pow2 e\<rfloor> = n"
    by (simp add: q)
  show ?thesis
    unfolding round_double_def Let_def e [symmetric] fl q
    using y small by (auto simp: abs_if)
qed

lemma pow2_nonpos: "e \<le> 0 \<Longrightarrow> pow2 e = 1 / 2 ^ nat (- e)"
  by (cases "e = 0") (simp_all add: pow2_def)

lemma round_double_int:
  assumes "\<bar>i\<bar> \<le> 2 ^ 53"
  shows "round_double (of_int i) = Num (of_int i)"
proof -
  define a where "a = nat \<bar>i\<bar>"
  define e where "e = max (int (bit_length (a * 2 ^ 1074)) - 53) 0 - 1074"
  have abs: "\<bar>rat_of_int i\<bar> = of_nat a"
    by (simp add: a_def)
  have N: "nat \<lfloor>\<bar>rat_of_int i\<bar> * 2 ^ 1074\<rfloor> = a * 2 ^ 1074"
  proof -
    have "\<bar>rat_of_int i\<bar> * 2 ^ 1074 = of_int (int (a * 2 ^ 1074))"
      by (simp add: abs)
    then show ?thesis
      by (simp only: floor_of_int nat_int)
  qed
  have e: "e = max (int (bit_length (nat \<lfloor>\<bar>rat_of_int i\<bar> * 2 ^ 1074\<rfloor>)) - 53) 0 - 1074"
    by (simp only: N e_def)
  from assms have le: "a \<le> 2 ^ 53"
    by (simp add: a_def nat_le_iff)
  have small: "\<bar>rat_of_int i\<bar> < 2 ^ 1024"
  proof -
    have "(2::nat) ^ 53 < 2 ^ 1024"
      by (rule power_strict_increasing) simp_all
    with le have "a < 2 ^ 1024" by simp
    then have "(of_nat a :: rat) < of_nat (2 ^ 1024)"
      by (simp only: of_nat_less_iff)
    then show ?thesis by (simp add: abs)
  qed
  have "\<exists>n. \<bar>rat_of_int i\<bar> / pow2 e = of_int n"
  proof (cases "a = 2 ^ 53")
    case True
    have "a * 2 ^ 1074 = 2 ^ 1127"
      by (simp add: True power_add [symmetric])
    then have "bit_length (a * 2 ^ 1074) = Suc 1127"
      by (simp only: bit_length_power)
    then have "e = 1"
      by (simp add: e_def)
    then have "\<bar>rat_of_int i\<bar> / pow2 e = of_int (2 ^ 52)"
      by (simp add: abs True pow2_def)
    then show ?thesis ..
  next
    case False
    with le have "a < 2 ^ 53" by simp
    then have "a * 2 ^ 1074 < 2 ^ 53 * 2 ^ 1074" by simp
    then have "a * 2 ^ 1074 < 2 ^ 1127"
      by (simp add: power_add [symmetric])
    then have "bit_length (a * 2 ^ 1074) \<le> 1127"
      by (rule bit_length_le)
    then have "e \<le> 0"
      by (simp add: e_def)
    then have "\<bar>rat_of_int i\<bar> / pow2 e = of_int (int a * 2 ^ nat (- e))"
      by (simp add: pow2_nonpos abs)
    then show ?thesis ..
  qed
  then obtain n where q: "\<bar>rat_of_int i\<bar> / pow2 e = of_int n" ..
  from e q small show ?thesis
    by (rule round_double_unit)
qed

lemma bit_length_eq: "2 ^ k \<le> n \<Longrightarrow> n < 2 ^ Suc k \<Longrightarrow> bit_length n = Suc k"
proof (induction k arbitrary: n)
  case 0
  then have "n = 1" by simp
  then show ?case by (simp add: bit_length_pos bit_length_0)
next
  case (Suc k)
  from Suc.prems have lo: "2 ^ k \<le> n div 2" and hi: "n div 2 < 2 ^ Suc k" and pos: "0 < n"
    by simp_all
  from lo hi have "bit_length (n div 2) = Suc k"
    by (rule Suc.IH)
  with pos show ?case
    by (simp only: bit_length_pos)
qed

text \<open>
  The sum is exact as long as it is an integer of magnitude at most \<open>2 ^ 53\<close>; one
  past that, it is rounded.
\<close>

lemma js_add_exact:
  "\<bar>now + d\<bar> \<le> 2 ^ 53 \<Longrightarrow> js_add now (Some (Num (of_int d))) = Num (of_int (now + d))"
  using round_double_int [of "now + d"] by simp

lemma rounding_example: "js_add 1 (Some (Num 9007199254740992)) = Num 9007199254740992"
proof -
  have "\<bar>9007199254740993::rat\<bar> * 2 ^ 1074 = of_nat (9007199254740993 * 2 ^ 1074)"
    by simp
  then have N: "nat \<lfloor>\<bar>9007199254740993::rat\<bar> * 2 ^ 1074\<rfloor> = 9007199254740993 * 2 ^ 1074"
    by (simp only: floor_of_nat nat_int)
  have "(2::nat) ^ 53 * 2 ^ 1074 \<le> 9007199254740993 * 2 ^ 1074"
    by (rule mult_le_mono1) simp
  then have lo: "(2::nat) ^ 1127 \<le> 9007199254740993 * 2 ^ 1074"
    by (simp only: power_add [symmetric]) simp
  have "(9007199254740993::nat) * 2 ^ 1074 < 2 ^ 54 * 2 ^ 1074"
    by (rule mult_strict_right_mono) simp_all
  then have hi: "(9007199254740993::nat) * 2 ^ 1074 < 2 ^ Suc 1127"
    by (simp only: power_add [symmetric]) simp
  have bl: "bit_length (nat \<lfloor>\<bar>9007199254740993::rat\<bar> * 2 ^ 1074\<rfloor>) = Suc 1127"
    unfolding N using lo hi by (rule bit_length_eq)
  have fl: "\<lfloor>(9007199254740993::rat) / 2\<rfloor> = 4503599627370496"
    by (rule floor_unique) simp_all
  have "round_double 9007199254740993 = Num 9007199254740992"
    unfolding round_double_def Let_def bl by (simp add: pow2_def fl)
  then show ?thesis by simp
qed

lemma example_rounds:
  "round_double 301000 = Num 301000"
  "round_double 700000 = Num 700000"
  using round_double_int [of 301000] round_double_int [of 700000] by simp_all

lemma example_sums:
  "js_add 1000 (Some (Num 300000)) = Num 301000"
  "js_add 400000 (Some (Num 300000)) = Num 700000"
  by (simp_all add: example_rounds)

section \<open>Token cache\<close>

lemma fetchToken_nonempty: "fetchToken r = Inr t \<Longrightarrow> t \<noteq> []"
  by (cases r) (auto simp: Let_def split: if_splits)

lemma fetch_fails_iff: "fetch_fails r \<longleftrightarrow> (\<exists>e. fetchToken r = Inl e)"
  by (cases r) (auto simp: fetch_fails_def Let_def)

text \<open>The cached token is never the empty string, so a token that exists is truthy.\<close>

lemma reachable_token_nonempty: "reachable s \<Longrightarrow> cachedToken s \<noteq> Some []"
proof (induction rule: reachable.induct)
  case start
  show ?case by (simp add: initial_state_def)
next
  case (call s proxyConfig now exec r s' cmds)
  then show ?case
    by (auto simp: getToken_def Let_def split: if_splits sum.splits dest: fetchToken_nonempty)
qed

lemma reachable_fresh_state: "reachable fresh_state"
proof -
  have "getToken example_config 1000 exec_ok initial_state =
          (Some ''tok123'', fresh_state,
           [token_command (cloudflaredAppUrl example_config)])"
    by (simp add: getToken_def example_config_def exec_ok_def initial_state_def trim_def
        is_space_def fresh_state_def example_sums del: js_add.simps)
  with reachable.start show ?thesis
    by (rule reachable.call)
qed

lemma example_command:
  "token_command (cloudflaredAppUrl example_config) =
     ''cloudflared access token --app=https://your-clickhouse-host.example.com''"
  by (simp add: token_command_def example_config_def)

text \<open>
  C3. In any state the two variables can be in, when a token is cached and the time
  read on entry is strictly before the recorded expiry, getToken returns the cached
  token, leaves the state as it is and runs no command.
\<close>

theorem cached_token_served:
  assumes "reachable s" and "cachedToken s = Some t" and "js_less now (tokenExpiry s)"
  shows "getToken proxyConfig now exec s = (Some t, s, [])"
proof -
  from assms(1,2) have "t \<noteq> []"
    using reachable_token_nonempty by force
  with assms(2,3) show ?thesis
    by (simp add: getToken_def)
qed

theorem cached_token_served_witness:
  "reachable fresh_state \<and> cachedToken fresh_state = Some ''tok123''
   \<and> js_less 2000 (tokenExpiry fresh_state)
   \<and> getToken example_config 2000 exec_exit1 fresh_state = (Some ''tok123'', fresh_state, [])"
proof -
  have a: "cachedToken fresh_state = Some ''tok123''"
    and b: "js_less 2000 (tokenExpiry fresh_state)"
    by (simp_all add: fresh_state_def)
  from cached_token_served [OF reachable_fresh_state a b] reachable_fresh_state a b
  show ?thesis by simp
qed

text \<open>
  C4. When the cache is empty or the time read on entry is not before the recorded
  expiry, getToken runs the cloudflared command exactly once. When that gives a token,
  the token is stored and returned, and the expiry becomes the JavaScript sum of the
  time read on entry (just before the command is started) and the configured duration.
  For a duration of \<open>d\<close> milliseconds, \<open>d\<close> an integer, that sum is exactly the time
  plus \<open>d\<close> as long as its magnitude is at most \<open>2 ^ 53\<close>, where doubles stop being
  exact on integers.
\<close>

theorem refresh_on_miss:
  assumes "cachedToken s = None \<or> \<not> js_less now (tokenExpiry s)"
  shows "snd (snd (getToken proxyConfig now exec s)) =
           [token_command (cloudflaredAppUrl proxyConfig)]
         \<and> (\<forall>newToken.
              fetchToken (exec (token_command (cloudflaredAppUrl proxyConfig))) = Inr newToken
              \<longrightarrow> getToken proxyConfig now exec s =
                    (Some newToken,
                     \<lparr>cachedToken = Some newToken,
                      tokenExpiry = js_add now (tokenCacheDurationMs proxyConfig)\<rparr>,
                     [token_command (cloudflaredAppUrl proxyConfig)]))
         \<and> (\<forall>newToken d.
              fetchToken (exec (token_command (cloudflaredAppUrl proxyConfig))) = Inr newToken
              \<and> tokenCacheDurationMs proxyConfig = Some (Num (of_int d))
              \<and> \<bar>now + d\<bar> \<le> 2 ^ 53
              \<longrightarrow> getToken proxyConfig now exec s =
                    (Some newToken,
                     \<lparr>cachedToken = Some newToken, tokenExpiry = Num (of_int (now + d))\<rparr>,
                     [token_command (cloudflaredAppUrl proxyConfig)]))"
proof -
  from assms have miss: "\<not> (truthy (cachedToken s) \<and> js_less now (tokenExpiry s))"
    by auto
  then have one: "snd (snd (getToken proxyConfig now exec s)) =
           [token_command (cloudflaredAppUrl proxyConfig)]"
    by (auto simp: getToken_def Let_def split: sum.splits)
  from miss have stored: "getToken proxyConfig now exec s =
                    (Some newToken,
                     \<lparr>cachedToken = Some newToken,
                      tokenExpiry = js_add now (tokenCacheDurationMs proxyConfig)\<rparr>,
                     [token_command (cloudflaredAppUrl proxyConfig)])"
    if "fetchToken (exec (token_command (cloudflaredAppUrl proxyConfig))) = Inr newToken"
    for newToken
    using that by (auto simp: getToken_def Let_def)
  have exact: "getToken proxyConfig now exec s =
                    (Some newToken,
                     \<lparr>cachedToken = Some newToken, tokenExpiry = Num (of_int (now + d))\<rparr>,
                     [token_command (cloudflaredAppUrl proxyConfig)])"
    if "fetchToken (exec (token_command (cloudflaredAppUrl proxyConfig))) = Inr newToken"
      and "tokenCacheDurationMs proxyConfig = Some (Num (of_int d))"
      and "\<bar>now + d\<bar> \<le> 2 ^ 53"
    for newToken d
    using stored [OF that(1)] js_add_exact [OF that(3)] that(2) by simp
  from one stored exact show ?thesis
    by blast
qed

theorem refresh_on_miss_witness:
  "\<not> js_less 400000 (tokenExpiry fresh_state)
   \<and> getToken example_config 400000 exec_ok fresh_state =
       (Some ''tok123'', \<lparr>cachedToken = Some ''tok123'', tokenExpiry = Num 700000\<rparr>,
        [''cloudflared access token --app=https://your-clickhouse-host.example.com''])"
proof -
  have a: "cachedToken fresh_state = None \<or> \<not> js_less 400000 (tokenExpiry fresh_state)"
    by (simp add: fresh_state_def)
  have b: "fetchToken (exec_ok (token_command (cloudflaredAppUrl example_config))) =
             Inr ''tok123''"
    by (simp add: exec_ok_def trim_def is_space_def)
  have c: "tokenCacheDurationMs example_config = Some (Num (of_int 300000))"
    by (simp add: example_config_def)
  have d: "\<bar>400000 + 300000 :: int\<bar> \<le> 2 ^ 53"
    by simp
  from refresh_on_miss [OF a, of example_config exec_ok] b c d
  have "getToken example_config 400000 exec_ok fresh_state =
          (Some ''tok123'',
           \<lparr>cachedToken = Some ''tok123'', tokenExpiry = Num (of_int (400000 + 300000))\<rparr>,
           [token_command (cloudflaredAppUrl example_config)])"
    by blast
  with a show ?thesis
    by (simp add: fresh_state_def example_command)
qed

text \<open>
  C5. When getToken runs the command (no truthy token before its expiry) and the command
  fails in any of the three ways, getToken returns null with the token cleared and the
  expiry set to 0, having run the command once. From that state the next call, at any
  time and whatever the command does then, runs the command again, and returns null or
  the token just fetched, never an older one.
\<close>

theorem failed_fetch_clears_cache:
  assumes "\<not> (truthy (cachedToken s) \<and> js_less now (tokenExpiry s))"
    and "fetch_fails (exec (token_command (cloudflaredAppUrl proxyConfig)))"
  shows "getToken proxyConfig now exec s =
           (None, \<lparr>cachedToken = None, tokenExpiry = Num 0\<rparr>,
            [token_command (cloudflaredAppUrl proxyConfig)])
         \<and> snd (snd (getToken proxyConfig now' exec'
                        \<lparr>cachedToken = None, tokenExpiry = Num 0\<rparr>)) =
             [token_command (cloudflaredAppUrl proxyConfig)]
         \<and> fst (getToken proxyConfig now' exec' \<lparr>cachedToken = None, tokenExpiry = Num 0\<rparr>) =
             (case fetchToken (exec' (token_command (cloudflaredAppUrl proxyConfig))) of
                Inl e \<Rightarrow> None
              | Inr newToken \<Rightarrow> Some newToken)"
proof -
  from assms(2) obtain e
    where "fetchToken (exec (token_command (cloudflaredAppUrl proxyConfig))) = Inl e"
    by (auto simp: fetch_fails_iff)
  with assms(1) have "getToken proxyConfig now exec s =
           (None, \<lparr>cachedToken = None, tokenExpiry = Num 0\<rparr>,
            [token_command (cloudflaredAppUrl proxyConfig)])"
    by (auto simp: getToken_def Let_def)
  moreover have "snd (snd (getToken proxyConfig now' exec'
                             \<lparr>cachedToken = None, tokenExpiry = Num 0\<rparr>)) =
             [token_command (cloudflaredAppUrl proxyConfig)]"
    by (simp add: getToken_def Let_def split: sum.splits)
  moreover have
    "fst (getToken proxyConfig now' exec' \<lparr>cachedToken = None, tokenExpiry = Num 0\<rparr>) =
             (case fetchToken (exec' (token_command (cloudflaredAppUrl proxyConfig))) of
                Inl e \<Rightarrow> None
              | Inr newToken \<Rightarrow> Some newToken)"
    by (simp add: getToken_def Let_def split: sum.splits)
  ultimately show ?thesis by simp
qed

theorem failed_fetch_clears_cache_witness:
  "getToken example_config 400000 exec_exit1 fresh_state =
     (None, \<lparr>cachedToken = None, tokenExpiry = Num 0\<rparr>,
      [''cloudflared access token --app=https://your-clickhouse-host.example.com''])
   \<and> getToken example_config 400000 exec_stderr fresh_state =
     (None, \<lparr>cachedToken = None, tokenExpiry = Num 0\<rparr>,
      [''cloudflared access token --app=https://your-clickhouse-host.example.com''])
   \<and> getToken example_config 400000 exec_empty fresh_state =
     (None, \<lparr>cachedToken = None, tokenExpiry = Num 0\<rparr>,
      [''cloudflared access token --app=https://your-clickhouse-host.example.com''])"
proof -
  have miss: "\<not> (truthy (cachedToken fresh_state) \<and> js_less 400000 (tokenExpiry fresh_state))"
    by (simp add: fresh_state_def)
  have f1: "fetch_fails (exec_exit1 (token_command (cloudflaredAppUrl example_config)))"
    by (simp add: fetch_fails_def exec_exit1_def)
  have f2: "fetch_fails (exec_stderr (token_command (cloudflaredAppUrl example_config)))"
    by (simp add: fetch_fails_def exec_stderr_def)
  have f3: "fetch_fails (exec_empty (token_command (cloudflaredAppUrl example_config)))"
    by (simp add: fetch_fails_def exec_empty_def trim_def is_space_def)
  from failed_fetch_clears_cache
         [where exec = exec_exit1 and proxyConfig = example_config, OF miss f1]
       failed_fetch_clears_cache
         [where exec = exec_stderr and proxyConfig = example_config, OF miss f2]
       failed_fetch_clears_cache
         [where exec = exec_empty and proxyConfig = example_config, OF miss f3]
  show ?thesis by (simp add: example_command)
qed

section \<open>Header objects\<close>

lemma map_of_obj_set:
  "map_of (obj_set key v h) k = (if k = key then Some v else map_of h k)"
  by (induction h) auto

lemma keys_obj_set: "fst ` set (obj_set key v h) = insert key (fst ` set h)"
proof (induction h)
  case Nil
  show ?case by simp
next
  case (Cons e h)
  obtain k w where e: "e = (k, w)" by (cases e)
  show ?case
  proof (cases "k = key")
    case True
    then show ?thesis by (simp add: e)
  next
    case False
    with Cons show ?thesis by (simp add: e insert_commute)
  qed
qed

lemma distinct_obj_set:
  "distinct (map fst h) \<Longrightarrow> distinct (map fst (obj_set key v h))"
proof (induction h)
  case Nil
  show ?case by simp
next
  case (Cons e h)
  obtain k w where e: "e = (k, w)" by (cases e)
  from Cons have "distinct (map fst (obj_set key v h))" and "k \<notin> fst ` set h"
    by (auto simp: e)
  then show ?case
    using Cons.prems by (auto simp: e keys_obj_set)
qed

lemma map_of_copy_headers:
  "map_of (copy_headers keys inbound h) k =
     (if k \<in> set keys \<and> kept (toLowerCase k) then Some (obj_get inbound k) else map_of h k)"
  by (induction keys arbitrary: h) (auto simp: Let_def map_of_obj_set)

lemma distinct_copy_headers:
  "distinct (map fst h) \<Longrightarrow> distinct (map fst (copy_headers keys inbound h))"
  by (induction keys arbitrary: h) (auto simp: Let_def distinct_obj_set)

lemma count_key:
  "distinct (map fst h) \<Longrightarrow>
     length (filter (\<lambda>(k, v). k = key) h) = (if key \<in> fst ` set h then 1 else 0)"
  by (induction h) (auto simp: rev_image_eqI)

lemma obj_get_object_keys:
  "(if k \<in> set (object_keys inbound) then Some (obj_get inbound k) else None) = map_of inbound k"
proof (cases "map_of inbound k")
  case None
  then have "k \<notin> fst ` set inbound"
    by (simp add: map_of_eq_None_iff)
  with None show ?thesis
    by (simp add: object_keys_def)
next
  case (Some v)
  then have "k \<in> fst ` set inbound"
    by (auto dest: map_of_SomeD intro: rev_image_eqI)
  with Some show ?thesis
    by (simp add: object_keys_def obj_get_def)
qed

lemma lower_consts:
  "toLowerCase ''Host'' = ''host''"
  "toLowerCase ''Cookie'' = ''cookie''"
  "toLowerCase ''X-ClickHouse-User'' = ''x-clickhouse-user''"
  "toLowerCase ''X-ClickHouse-Key'' = ''x-clickhouse-key''"
  by (simp_all add: toLowerCase_def lower_char_def)

lemma map_of_build_headers:
  "map_of (build_headers proxyConfig cfToken inbound) key =
     (if key = ''X-ClickHouse-Key'' then Some (cfg_value (clickhousePassword proxyConfig))
      else if key = ''X-ClickHouse-User'' then Some (cfg_value (clickhouseUsername proxyConfig))
      else if key = ''Cookie'' then
        Some (HStr (js_template (cookieName proxyConfig) @ ''='' @ cfToken))
      else if key = ''Host'' then Some (cfg_value (targetHost proxyConfig))
      else if kept (toLowerCase key) then map_of inbound key
      else None)"
proof -
  have "map_of (copy_headers (object_keys inbound) inbound []) key =
          (if kept (toLowerCase key) then map_of inbound key else None)"
    using obj_get_object_keys [of key inbound]
    by (simp add: map_of_copy_headers split: if_splits)
  then show ?thesis
    by (simp add: build_headers_def Let_def map_of_obj_set)
qed

lemma distinct_build_headers:
  "distinct (map fst (build_headers proxyConfig cfToken inbound))"
  by (simp add: build_headers_def Let_def distinct_obj_set distinct_copy_headers)

lemma keys_build_headers:
  "fst ` set (build_headers proxyConfig cfToken inbound) =
     {''Host'', ''Cookie'', ''X-ClickHouse-User'', ''X-ClickHouse-Key''} \<union>
     {k \<in> fst ` set inbound. kept (toLowerCase k)}"
proof -
  have "fst ` set (copy_headers keys inb h) = fst ` set h \<union> {k \<in> set keys. kept (toLowerCase k)}"
    for keys inb h
    by (induction keys arbitrary: h) (auto simp: Let_def keys_obj_set)
  then show ?thesis
    by (auto simp: build_headers_def Let_def keys_obj_set object_keys_def)
qed

lemma set_headers_append:
  "set_headers (a @ b) out = set_headers b (set_headers a out)"
  by (induction a arbitrary: out) auto

lemma obj_set_new: "key \<notin> fst ` set h \<Longrightarrow> obj_set key v h = h @ [(key, v)]"
  by (induction h) auto

lemma keys_copy_headers:
  "fst ` set (copy_headers keys inbound h) =
     fst ` set h \<union> {k \<in> set keys. kept (toLowerCase k)}"
  by (induction keys arbitrary: h) (auto simp: Let_def keys_obj_set)

lemma distinct_set_headers:
  "distinct (map fst out) \<Longrightarrow> distinct (map fst (set_headers headers out))"
  by (induction headers arbitrary: out) (auto simp: setHeader_def distinct_obj_set)

lemma obj_set_mem: "(key, v) \<in> set (obj_set key v h)"
  by (induction h) auto

lemma set_obj_set: "set (obj_set key v h) \<subseteq> insert (key, v) (set h)"
  by (induction h) (auto split: if_splits)

lemma set_headers_other:
  "n \<notin> toLowerCase ` fst ` set headers \<Longrightarrow> map_of (set_headers headers out) n = map_of out n"
  by (induction headers arbitrary: out) (auto simp: setHeader_def map_of_obj_set)

lemma set_headers_cong:
  "map_of out n = map_of out' n \<Longrightarrow>
     map_of (set_headers headers out) n = map_of (set_headers headers out') n"
  by (induction headers arbitrary: out out') (auto simp: setHeader_def map_of_obj_set)

lemma set_headers_unique:
  assumes "distinct (map fst headers)" and "(k, v) \<in> set headers"
    and "\<forall>k' \<in> fst ` set headers. toLowerCase k' = toLowerCase k \<longrightarrow> k' = k"
  shows "map_of (set_headers headers out) (toLowerCase k) = Some (k, v)"
  using assms
proof (induction headers arbitrary: out)
  case Nil
  then show ?case by simp
next
  case (Cons e headers)
  obtain k' v' where e: "e = (k', v')" by (cases e)
  show ?case
  proof (cases "(k, v) \<in> set headers")
    case True
    with Cons.prems have "map_of (set_headers headers (setHeader k' v' out)) (toLowerCase k) =
        Some (k, v)"
      by (intro Cons.IH) (auto simp: e)
    then show ?thesis by (simp add: e)
  next
    case False
    with Cons.prems have same: "k' = k" "v' = v"
      by (auto simp: e)
    from Cons.prems have "k \<notin> fst ` set headers"
      by (auto simp: e same)
    with Cons.prems have "toLowerCase k \<notin> toLowerCase ` fst ` set headers"
      by (auto simp: e same)
    then show ?thesis
      by (simp add: e same set_headers_other setHeader_def map_of_obj_set)
  qed
qed

lemma set_headers_obj_set_other:
  "n \<noteq> toLowerCase key \<Longrightarrow>
     map_of (set_headers (obj_set key v h) out) n = map_of (set_headers h out) n"
proof (induction h arbitrary: out)
  case Nil
  then show ?case by (simp add: setHeader_def map_of_obj_set)
next
  case (Cons e h)
  obtain k w where e: "e = (k, w)" by (cases e)
  show ?case
  proof (cases "k = key")
    case True
    from Cons.prems have "map_of (setHeader key v out) n = map_of (setHeader key w out) n"
      by (simp add: setHeader_def map_of_obj_set)
    then have "map_of (set_headers h (setHeader key v out)) n =
        map_of (set_headers h (setHeader key w out)) n"
      by (rule set_headers_cong)
    then show ?thesis
      by (simp add: e True)
  next
    case False
    with Cons show ?thesis by (simp add: e)
  qed
qed

lemma set_headers_obj_set:
  assumes "distinct (map fst h)"
    and "key \<in> fst ` set h \<longrightarrow>
           (\<forall>k' \<in> fst ` set h. toLowerCase k' = toLowerCase key \<longrightarrow> k' = key)"
  shows "map_of (set_headers (obj_set key v h) out) n =
           (if n = toLowerCase key then Some (key, v) else map_of (set_headers h out) n)"
proof (cases "n = toLowerCase key")
  case False
  then show ?thesis by (simp add: set_headers_obj_set_other)
next
  case True
  show ?thesis
  proof (cases "key \<in> fst ` set h")
    case False
    then show ?thesis
      by (simp add: True obj_set_new set_headers_append setHeader_def map_of_obj_set)
  next
    case in_h: True
    have "map_of (set_headers (obj_set key v h) out) (toLowerCase key) = Some (key, v)"
    proof (rule set_headers_unique)
      show "distinct (map fst (obj_set key v h))"
        using assms(1) by (rule distinct_obj_set)
      show "(key, v) \<in> set (obj_set key v h)"
        by (rule obj_set_mem)
      show "\<forall>k' \<in> fst ` set (obj_set key v h). toLowerCase k' = toLowerCase key \<longrightarrow> k' = key"
        using assms(2) in_h by (simp add: keys_obj_set)
    qed
    then show ?thesis by (simp add: True)
  qed
qed

lemma set_set_headers:
  "set (set_headers headers out) \<subseteq>
     set out \<union> (\<lambda>e. (toLowerCase (fst e), fst e, snd e)) ` set headers"
proof (induction headers arbitrary: out)
  case Nil
  show ?case by simp
next
  case (Cons e headers)
  obtain k v where e: "e = (k, v)" by (cases e)
  have a: "set (set_headers headers (setHeader k v out)) \<subseteq>
          set (setHeader k v out) \<union> (\<lambda>e. (toLowerCase (fst e), fst e, snd e)) ` set headers"
    by (rule Cons.IH)
  have b: "set (setHeader k v out) \<subseteq> insert (toLowerCase k, k, v) (set out)"
    unfolding setHeader_def by (rule set_obj_set)
  have "set (set_headers headers (setHeader k v out)) \<subseteq>
          insert (toLowerCase k, k, v)
            (set out \<union> (\<lambda>e. (toLowerCase (fst e), fst e, snd e)) ` set headers)"
    using a b by blast
  then show ?case
    by (simp add: e)
qed

lemma only_variant:
  assumes "inj_on toLowerCase A" and "keys \<subseteq> S \<union> A" and "key \<notin> S"
    and "\<forall>s \<in> S. toLowerCase s \<noteq> toLowerCase key"
  shows "key \<in> keys \<longrightarrow> (\<forall>k' \<in> keys. toLowerCase k' = toLowerCase key \<longrightarrow> k' = key)"
proof (intro impI ballI)
  fix k' assume key: "key \<in> keys" and k': "k' \<in> keys" and eq: "toLowerCase k' = toLowerCase key"
  from key assms(2,3) have "key \<in> A" by blast
  moreover from k' eq assms(2,4) have "k' \<in> A" by blast
  ultimately show "k' = key"
    using assms(1) eq by (auto dest: inj_onD)
qed

text \<open>
  What Node sends for the object of the handler, when no two keys of the inbound object
  differ in letter case only: the four injected names with the injected values, and the
  inbound headers that were copied and do not bear an injected name.
\<close>

lemma sent_headers_build:
  assumes H: "distinct (map (\<lambda>(key, v). toLowerCase key) inbound)"
  shows "map_of (sent_headers (build_headers proxyConfig cfToken inbound)) n =
     (if n = ''x-clickhouse-key'' then
        Some (''X-ClickHouse-Key'', cfg_value (clickhousePassword proxyConfig))
      else if n = ''x-clickhouse-user'' then
        Some (''X-ClickHouse-User'', cfg_value (clickhouseUsername proxyConfig))
      else if n = ''cookie'' then
        Some (''Cookie'', HStr (js_template (cookieName proxyConfig) @ ''='' @ cfToken))
      else if n = ''host'' then Some (''Host'', cfg_value (targetHost proxyConfig))
      else map_of (set_headers (copy_headers (object_keys inbound) inbound []) []) n)"
proof -
  let ?h0 = "copy_headers (object_keys inbound) inbound []"
  let ?h1 = "obj_set ''Host'' (cfg_value (targetHost proxyConfig)) ?h0"
  let ?h2 = "obj_set ''Cookie''
               (HStr (js_template (cookieName proxyConfig) @ ''='' @ cfToken)) ?h1"
  let ?h3 = "obj_set ''X-ClickHouse-User'' (cfg_value (clickhouseUsername proxyConfig)) ?h2"
  let ?A = "fst ` set inbound"
  have "map (\<lambda>(key, v). toLowerCase key) inbound = map toLowerCase (map fst inbound)"
    by (simp add: case_prod_beta)
  with H have "distinct (map toLowerCase (map fst inbound))"
    by (simp only:)
  then have "inj_on toLowerCase (set (map fst inbound))"
    by (simp only: distinct_map)
  then have inj: "inj_on toLowerCase ?A"
    by (simp only: set_map)
  have k0: "fst ` set ?h0 \<subseteq> {} \<union> ?A"
    by (auto simp: keys_copy_headers object_keys_def)
  have host0: "''Host'' \<notin> fst ` set ?h0"
    by (simp add: keys_copy_headers kept_def lower_consts)
  have k1: "fst ` set ?h1 \<subseteq> {''Host''} \<union> ?A"
    using k0 by (auto simp: keys_obj_set)
  have k2: "fst ` set ?h2 \<subseteq> {''Host'', ''Cookie''} \<union> ?A"
    using k1 by (auto simp: keys_obj_set)
  have k3: "fst ` set ?h3 \<subseteq> {''Host'', ''Cookie'', ''X-ClickHouse-User''} \<union> ?A"
    using k2 by (auto simp: keys_obj_set)
  have d0: "distinct (map fst ?h0)"
    by (simp add: distinct_copy_headers)
  then have d1: "distinct (map fst ?h1)" by (rule distinct_obj_set)
  then have d2: "distinct (map fst ?h2)" by (rule distinct_obj_set)
  then have d3: "distinct (map fst ?h3)" by (rule distinct_obj_set)
  have c1: "''Host'' \<in> fst ` set ?h0 \<longrightarrow>
      (\<forall>k' \<in> fst ` set ?h0. toLowerCase k' = toLowerCase ''Host'' \<longrightarrow> k' = ''Host'')"
    using host0 by simp
  have c2: "''Cookie'' \<in> fst ` set ?h1 \<longrightarrow>
      (\<forall>k' \<in> fst ` set ?h1. toLowerCase k' = toLowerCase ''Cookie'' \<longrightarrow> k' = ''Cookie'')"
    by (rule only_variant [OF inj k1]) (simp_all add: lower_consts)
  have c3: "''X-ClickHouse-User'' \<in> fst ` set ?h2 \<longrightarrow>
      (\<forall>k' \<in> fst ` set ?h2. toLowerCase k' = toLowerCase ''X-ClickHouse-User''
          \<longrightarrow> k' = ''X-ClickHouse-User'')"
    by (rule only_variant [OF inj k2]) (simp_all add: lower_consts)
  have c4: "''X-ClickHouse-Key'' \<in> fst ` set ?h3 \<longrightarrow>
      (\<forall>k' \<in> fst ` set ?h3. toLowerCase k' = toLowerCase ''X-ClickHouse-Key''
          \<longrightarrow> k' = ''X-ClickHouse-Key'')"
    by (rule only_variant [OF inj k3]) (simp_all add: lower_consts)
  show ?thesis
    unfolding sent_headers_def build_headers_def Let_def
    by (simp only: set_headers_obj_set [OF d3 c4] set_headers_obj_set [OF d2 c3]
        set_headers_obj_set [OF d1 c2] set_headers_obj_set [OF d0 c1] lower_consts)
qed

section \<open>Outbound request\<close>

lemma copied_mem:
  assumes "distinct (map fst inbound)"
  shows "(k, v) \<in> set (copy_headers (object_keys inbound) inbound []) \<longleftrightarrow>
           kept (toLowerCase k) \<and> (k, v) \<in> set inbound"
proof -
  let ?h0 = "copy_headers (object_keys inbound) inbound []"
  have d0: "distinct (map fst ?h0)"
    by (simp add: distinct_copy_headers)
  have "map_of ?h0 k = (if kept (toLowerCase k) then map_of inbound k else None)"
    using obj_get_object_keys [of k inbound]
    by (simp add: map_of_copy_headers split: if_splits)
  then have "map_of ?h0 k = Some v \<longleftrightarrow> kept (toLowerCase k) \<and> map_of inbound k = Some v"
    by simp
  then show ?thesis
    by (simp only: map_of_eq_Some_iff [OF d0] map_of_eq_Some_iff [OF assms])
qed

text \<open>
  C1. Take a forwarded request whose header object has no two keys that differ in letter
  case only (Node hands over lower-cased names, each once), with the target host, cookie
  name, user name and password configured. Of the headers sent upstream, compared without
  regard to letter case: Host is the target host, Cookie is cookieName=token,
  X-ClickHouse-User and X-ClickHouse-Key are the configured credentials, and there is
  exactly one header of each of these four names; there is no Proxy-Connection,
  Transfer-Encoding or Authorization header; every inbound header under another name is
  sent as it came; and every header sent is one of the four injected ones or an inbound
  one. A Cookie, Host or X-ClickHouse header of the client is replaced by the injected
  one.
\<close>

theorem outbound_headers:
  assumes "targetHost proxyConfig = Some host"
    and "cookieName proxyConfig = Some cname"
    and "clickhouseUsername proxyConfig = Some user"
    and "clickhousePassword proxyConfig = Some password"
    and "distinct (map (\<lambda>(key, v). toLowerCase key) (req_headers clientReq))"
  shows
    "(let sent = sent_headers (opt_headers (make_options proxyConfig cfToken clientReq)) in
        map_of sent ''host'' = Some (''Host'', HStr host)
      \<and> map_of sent ''cookie'' = Some (''Cookie'', HStr (cname @ ''='' @ cfToken))
      \<and> map_of sent ''x-clickhouse-user'' = Some (''X-ClickHouse-User'', HStr user)
      \<and> map_of sent ''x-clickhouse-key'' = Some (''X-ClickHouse-Key'', HStr password)
      \<and> map_of sent ''proxy-connection'' = None
      \<and> map_of sent ''transfer-encoding'' = None
      \<and> map_of sent ''authorization'' = None
      \<and> (\<forall>(key, v) \<in> set (req_headers clientReq).
            toLowerCase key \<notin>
              {''proxy-connection'', ''transfer-encoding'', ''host'', ''authorization'',
               ''cookie'', ''x-clickhouse-user'', ''x-clickhouse-key''}
            \<longrightarrow> map_of sent (toLowerCase key) = Some (key, v))
      \<and> (\<forall>(name, key, v) \<in> set sent.
            name = toLowerCase key
            \<and> ((key, v) \<in>
                  {(''Host'', HStr host), (''Cookie'', HStr (cname @ ''='' @ cfToken)),
                   (''X-ClickHouse-User'', HStr user), (''X-ClickHouse-Key'', HStr password)}
               \<or> (key, v) \<in> set (req_headers clientReq)))
      \<and> length (filter (\<lambda>(name, key, v). toLowerCase key = ''host'') sent) = 1
      \<and> length (filter (\<lambda>(name, key, v). toLowerCase key = ''cookie'') sent) = 1
      \<and> length (filter (\<lambda>(name, key, v). toLowerCase key = ''x-clickhouse-user'') sent) = 1
      \<and> length (filter (\<lambda>(name, key, v). toLowerCase key = ''x-clickhouse-key'') sent) = 1)"
proof -
  let ?inb = "req_headers clientReq"
  let ?h0 = "copy_headers (object_keys ?inb) ?inb []"
  let ?out = "build_headers proxyConfig cfToken ?inb"
  let ?sent = "sent_headers ?out"
  let ?inj = "{(''Host'', HStr host), (''Cookie'', HStr (cname @ ''='' @ cfToken)),
               (''X-ClickHouse-User'', HStr user), (''X-ClickHouse-Key'', HStr password)}"
  note H = assms(5)
  have "map (\<lambda>(key, v). toLowerCase key) ?inb = map toLowerCase (map fst ?inb)"
    by (simp add: case_prod_beta)
  with H have dl: "distinct (map toLowerCase (map fst ?inb))"
    by (simp only:)
  then have "inj_on toLowerCase (set (map fst ?inb))" and dk: "distinct (map fst ?inb)"
    by (simp_all only: distinct_map)
  then have inj: "inj_on toLowerCase (fst ` set ?inb)"
    by (simp only: set_map)
  have d0: "distinct (map fst ?h0)"
    by (simp add: distinct_copy_headers)
  have k0: "fst ` set ?h0 = {k \<in> fst ` set ?inb. kept (toLowerCase k)}"
    by (auto simp: keys_copy_headers object_keys_def)
  have sent: "map_of ?sent n =
     (if n = ''x-clickhouse-key'' then Some (''X-ClickHouse-Key'', HStr password)
      else if n = ''x-clickhouse-user'' then Some (''X-ClickHouse-User'', HStr user)
      else if n = ''cookie'' then Some (''Cookie'', HStr (cname @ ''='' @ cfToken))
      else if n = ''host'' then Some (''Host'', HStr host)
      else map_of (set_headers ?h0 []) n)" for n
    using assms(1-4) by (simp add: sent_headers_build [OF H])
  have none: "map_of (set_headers ?h0 []) n = None" if "\<not> kept n" for n
  proof -
    from that k0 have "n \<notin> toLowerCase ` fst ` set ?h0"
      by auto
    then show ?thesis
      by (simp add: set_headers_other)
  qed
  have some: "map_of (set_headers ?h0 []) (toLowerCase k) = Some (k, v)"
    if "(k, v) \<in> set ?inb" and "kept (toLowerCase k)" for k v
  proof (rule set_headers_unique [OF d0])
    from that show "(k, v) \<in> set ?h0"
      by (simp add: copied_mem [OF dk])
    show "\<forall>k' \<in> fst ` set ?h0. toLowerCase k' = toLowerCase k \<longrightarrow> k' = k"
    proof (intro ballI impI)
      fix k' assume "k' \<in> fst ` set ?h0" and eq: "toLowerCase k' = toLowerCase k"
      with k0 have "k' \<in> fst ` set ?inb" by blast
      moreover from that(1) have "k \<in> fst ` set ?inb"
        by (rule rev_image_eqI) simp
      ultimately show "k' = k"
        using inj eq by (auto dest: inj_onD)
    qed
  qed
  have c1: "map_of ?sent ''host'' = Some (''Host'', HStr host)"
    and c2: "map_of ?sent ''cookie'' = Some (''Cookie'', HStr (cname @ ''='' @ cfToken))"
    and c3: "map_of ?sent ''x-clickhouse-user'' = Some (''X-ClickHouse-User'', HStr user)"
    and c4: "map_of ?sent ''x-clickhouse-key'' = Some (''X-ClickHouse-Key'', HStr password)"
    by (simp_all add: sent)
  have c5: "map_of ?sent ''proxy-connection'' = None"
    and c6: "map_of ?sent ''transfer-encoding'' = None"
    and c7: "map_of ?sent ''authorization'' = None"
    by (simp_all add: sent none kept_def)
  have c8: "\<forall>(key, v) \<in> set ?inb.
            toLowerCase key \<notin>
              {''proxy-connection'', ''transfer-encoding'', ''host'', ''authorization'',
               ''cookie'', ''x-clickhouse-user'', ''x-clickhouse-key''}
            \<longrightarrow> map_of ?sent (toLowerCase key) = Some (key, v)"
  proof (intro ballI)
    fix e assume e: "e \<in> set ?inb"
    obtain key v where kv: "e = (key, v)" by (cases e)
    have "map_of ?sent (toLowerCase key) = Some (key, v)"
      if "toLowerCase key \<notin>
              {''proxy-connection'', ''transfer-encoding'', ''host'', ''authorization'',
               ''cookie'', ''x-clickhouse-user'', ''x-clickhouse-key''}"
    proof -
      from that have "kept (toLowerCase key)"
        by (simp add: kept_def)
      with e have "map_of (set_headers ?h0 []) (toLowerCase key) = Some (key, v)"
        unfolding kv by (intro some)
      with that show ?thesis
        by (simp add: sent)
    qed
    then show "case e of (key, v) \<Rightarrow>
            toLowerCase key \<notin>
              {''proxy-connection'', ''transfer-encoding'', ''host'', ''authorization'',
               ''cookie'', ''x-clickhouse-user'', ''x-clickhouse-key''}
            \<longrightarrow> map_of ?sent (toLowerCase key) = Some (key, v)"
      unfolding kv by simp
  qed
  have out_sub: "set ?out \<subseteq> ?inj \<union> set ?inb"
  proof -
    have "set ?h0 \<subseteq> set ?inb"
      using copied_mem [OF dk] by auto
    then show ?thesis
      unfolding build_headers_def Let_def
      using assms(1-4)
      by (auto dest!: set_obj_set [THEN subsetD])
  qed
  have c9: "\<forall>(name, key, v) \<in> set ?sent.
            name = toLowerCase key \<and> ((key, v) \<in> ?inj \<or> (key, v) \<in> set ?inb)"
  proof (intro ballI)
    fix e assume "e \<in> set ?sent"
    with set_set_headers [of ?out "[]"]
    obtain key v where e': "(key, v) \<in> set ?out" "e = (toLowerCase key, key, v)"
      unfolding sent_headers_def by auto
    from out_sub e'(1) have "(key, v) \<in> ?inj \<union> set ?inb"
      by (rule subsetD)
    then show "case e of (name, key, v) \<Rightarrow>
            name = toLowerCase key \<and> ((key, v) \<in> ?inj \<or> (key, v) \<in> set ?inb)"
      unfolding e'(2) by simp
  qed
  have ds: "distinct (map fst ?sent)"
    by (simp add: sent_headers_def distinct_set_headers)
  have count: "length (filter (\<lambda>(name, key, v). toLowerCase key = n) ?sent) = 1"
    if "map_of ?sent n \<noteq> None" for n
  proof -
    have "filter (\<lambda>(name, key, v). toLowerCase key = n) ?sent =
          filter (\<lambda>(name, kv). name = n) ?sent"
    proof (rule filter_cong [OF refl])
      fix e assume e: "e \<in> set ?sent"
      obtain name key v where nkv: "e = (name, key, v)" by (cases e)
      from c9 e have "case e of (name, key, v) \<Rightarrow>
            name = toLowerCase key \<and> ((key, v) \<in> ?inj \<or> (key, v) \<in> set ?inb)"
        by (rule bspec)
      then have "name = toLowerCase key"
        unfolding nkv by simp
      then show "(case e of (name, key, v) \<Rightarrow> toLowerCase key = n) =
                 (case e of (name, kv) \<Rightarrow> name = n)"
        unfolding nkv by simp
    qed
    moreover from that have "n \<in> fst ` set ?sent"
      by (simp add: map_of_eq_None_iff)
    ultimately show ?thesis
      by (simp only: count_key [OF ds] if_True)
  qed
  have n1: "length (filter (\<lambda>(name, key, v). toLowerCase key = ''host'') ?sent) = 1"
    and n2: "length (filter (\<lambda>(name, key, v). toLowerCase key = ''cookie'') ?sent) = 1"
    and n3: "length (filter (\<lambda>(name, key, v). toLowerCase key = ''x-clickhouse-user'') ?sent) = 1"
    and n4: "length (filter (\<lambda>(name, key, v). toLowerCase key = ''x-clickhouse-key'') ?sent) = 1"
    by (rule count, simp add: sent)+
  have eq: "opt_headers (make_options proxyConfig cfToken clientReq) = ?out"
    by (simp add: make_options_def)
  from c1 c2 c3 c4 c5 c6 c7 c8 c9 n1 n2 n3 n4 show ?thesis
    unfolding Let_def eq by (intro conjI)
qed

theorem outbound_headers_witness:
  "distinct (map (\<lambda>(key, v). toLowerCase key) (req_headers mixed_request))
   \<and> sent_headers (opt_headers (make_options example_config ''tok123'' mixed_request)) =
       [(''user-agent'', ''User-Agent'', HStr ''curl/8.5.0''),
        (''cookie'', ''Cookie'', HStr ''CF_Authorization=tok123''),
        (''x-clickhouse-user'', ''X-ClickHouse-User'', HStr ''your-username''),
        (''host'', ''Host'', HStr ''your-clickhouse-host.example.com''),
        (''x-clickhouse-key'', ''X-ClickHouse-Key'', HStr ''your-password'')]
   \<and> map_of (sent_headers (opt_headers (make_options example_config ''tok123'' mixed_request)))
         ''cookie'' = Some (''Cookie'', HStr ''CF_Authorization=tok123'')
   \<and> map_of (sent_headers (opt_headers (make_options example_config ''tok123'' mixed_request)))
         ''authorization'' = None
   \<and> map_of (sent_headers (opt_headers (make_options example_config ''tok123'' mixed_request)))
         ''user-agent'' = Some (''User-Agent'', HStr ''curl/8.5.0'')
   \<and> length (filter (\<lambda>(name, key, v). toLowerCase key = ''cookie'')
         (sent_headers (opt_headers (make_options example_config ''tok123'' mixed_request)))) = 1"
proof -
  let ?sent = "sent_headers (opt_headers (make_options example_config ''tok123'' mixed_request))"
  have h: "targetHost example_config = Some ''your-clickhouse-host.example.com''"
    and c: "cookieName example_config = Some ''CF_Authorization''"
    and u: "clickhouseUsername example_config = Some ''your-username''"
    and k: "clickhousePassword example_config = Some ''your-password''"
    by (simp_all add: example_config_def)
  have d: "distinct (map (\<lambda>(key, v). toLowerCase key) (req_headers mixed_request))"
    by (simp add: mixed_request_def toLowerCase_def lower_char_def)
  have e: "?sent =
       [(''user-agent'', ''User-Agent'', HStr ''curl/8.5.0''),
        (''cookie'', ''Cookie'', HStr ''CF_Authorization=tok123''),
        (''x-clickhouse-user'', ''X-ClickHouse-User'', HStr ''your-username''),
        (''host'', ''Host'', HStr ''your-clickhouse-host.example.com''),
        (''x-clickhouse-key'', ''X-ClickHouse-Key'', HStr ''your-password'')]"
    by (simp add: example_defs mixed_request_def eval_defs sent_headers_def setHeader_def)
  note t = outbound_headers [OF h c u k d, where cfToken = "''tok123''", unfolded Let_def]
  note cookie = t [THEN conjunct2, THEN conjunct1]
  note auth = t [THEN conjunct2, THEN conjunct2, THEN conjunct2, THEN conjunct2, THEN conjunct2,
      THEN conjunct2, THEN conjunct1]
  note copied = t [THEN conjunct2, THEN conjunct2, THEN conjunct2, THEN conjunct2,
      THEN conjunct2, THEN conjunct2, THEN conjunct2, THEN conjunct1]
  note one = t [THEN conjunct2, THEN conjunct2, THEN conjunct2, THEN conjunct2, THEN conjunct2,
      THEN conjunct2, THEN conjunct2, THEN conjunct2, THEN conjunct2, THEN conjunct2,
      THEN conjunct1]
  have "(''User-Agent'', HStr ''curl/8.5.0'') \<in> set (req_headers mixed_request)"
    by (simp add: mixed_request_def)
  with copied have "case (''User-Agent'', HStr ''curl/8.5.0'') of (key, v) \<Rightarrow>
            toLowerCase key \<notin>
              {''proxy-connection'', ''transfer-encoding'', ''host'', ''authorization'',
               ''cookie'', ''x-clickhouse-user'', ''x-clickhouse-key''}
            \<longrightarrow> map_of ?sent (toLowerCase key) = Some (key, v)"
    by (rule bspec)
  then have "toLowerCase ''User-Agent'' \<notin>
              {''proxy-connection'', ''transfer-encoding'', ''host'', ''authorization'',
               ''cookie'', ''x-clickhouse-user'', ''x-clickhouse-key''}
            \<longrightarrow> map_of ?sent (toLowerCase ''User-Agent'') =
                  Some (''User-Agent'', HStr ''curl/8.5.0'')"
    by (simp only: prod.case)
  moreover have "toLowerCase ''User-Agent'' = ''user-agent''"
    by (simp add: toLowerCase_def lower_char_def)
  ultimately have agent: "map_of ?sent ''user-agent'' = Some (''User-Agent'', HStr ''curl/8.5.0'')"
    by simp
  from cookie have cookie': "map_of ?sent ''cookie'' = Some (''Cookie'', HStr ''CF_Authorization=tok123'')"
    by simp
  from d e cookie' auth agent one show ?thesis
    by (intro conjI)
qed

text \<open>
  The object built by the handler itself, for any inbound object: a lookup by exact key,
  and the keys that cannot occur in any letter case.
\<close>

lemma built_header_object:
  assumes "targetHost proxyConfig = Some host"
    and "cookieName proxyConfig = Some cname"
    and "clickhouseUsername proxyConfig = Some user"
    and "clickhousePassword proxyConfig = Some password"
  shows
    "(\<forall>key. map_of (opt_headers (make_options proxyConfig cfToken clientReq)) key =
        (if key = ''Host'' then Some (HStr host)
         else if key = ''Cookie'' then Some (HStr (cname @ ''='' @ cfToken))
         else if key = ''X-ClickHouse-User'' then Some (HStr user)
         else if key = ''X-ClickHouse-Key'' then Some (HStr password)
         else if toLowerCase key \<in>
                   {''proxy-connection'', ''transfer-encoding'', ''host'', ''authorization''}
           then None
         else map_of (req_headers clientReq) key))
     \<and> (\<forall>(key, v) \<in> set (opt_headers (make_options proxyConfig cfToken clientReq)).
          toLowerCase key \<noteq> ''proxy-connection'' \<and> toLowerCase key \<noteq> ''transfer-encoding''
          \<and> toLowerCase key \<noteq> ''authorization''
          \<and> (toLowerCase key = ''host'' \<longrightarrow> key = ''Host'' \<and> v = HStr host))
     \<and> length (filter (\<lambda>(key, v). key = ''Cookie'')
           (opt_headers (make_options proxyConfig cfToken clientReq))) = 1
     \<and> length (filter (\<lambda>(key, v). key = ''X-ClickHouse-User'')
           (opt_headers (make_options proxyConfig cfToken clientReq))) = 1
     \<and> length (filter (\<lambda>(key, v). key = ''X-ClickHouse-Key'')
           (opt_headers (make_options proxyConfig cfToken clientReq))) = 1
     \<and> length (filter (\<lambda>(key, v). key = ''Host'')
           (opt_headers (make_options proxyConfig cfToken clientReq))) = 1"
proof -
  let ?out = "build_headers proxyConfig cfToken (req_headers clientReq)"
  have out: "opt_headers (make_options proxyConfig cfToken clientReq) = ?out"
    by (simp add: make_options_def)
  have look: "map_of ?out key =
        (if key = ''Host'' then Some (HStr host)
         else if key = ''Cookie'' then Some (HStr (cname @ ''='' @ cfToken))
         else if key = ''X-ClickHouse-User'' then Some (HStr user)
         else if key = ''X-ClickHouse-Key'' then Some (HStr password)
         else if toLowerCase key \<in>
                   {''proxy-connection'', ''transfer-encoding'', ''host'', ''authorization''}
           then None
         else map_of (req_headers clientReq) key)" for key
    using assms by (simp add: map_of_build_headers kept_def)
  have dist: "distinct (map fst ?out)"
    by (rule distinct_build_headers)
  have keys: "fst ` set ?out =
      {''Host'', ''Cookie'', ''X-ClickHouse-User'', ''X-ClickHouse-Key''} \<union>
      {k \<in> fst ` set (req_headers clientReq). kept (toLowerCase k)}"
    by (rule keys_build_headers)
  have strip: "toLowerCase key \<noteq> ''proxy-connection'' \<and> toLowerCase key \<noteq> ''transfer-encoding''
          \<and> toLowerCase key \<noteq> ''authorization''
          \<and> (toLowerCase key = ''host'' \<longrightarrow> key = ''Host'' \<and> v = HStr host)"
    if mem: "(key, v) \<in> set ?out" for key v
  proof -
    from mem have "key \<in> fst ` set ?out"
      by (rule rev_image_eqI) simp
    with keys have k: "key \<in> {''Host'', ''Cookie'', ''X-ClickHouse-User'', ''X-ClickHouse-Key''}
        \<or> kept (toLowerCase key)"
      by blast
    from dist mem have "map_of ?out key = Some v"
      by simp
    with look [of key] have v: "key = ''Host'' \<Longrightarrow> v = HStr host"
      by simp
    from k show ?thesis
    proof
      assume "key \<in> {''Host'', ''Cookie'', ''X-ClickHouse-User'', ''X-ClickHouse-Key''}"
      then show ?thesis
        using v by (auto simp: lower_consts)
    next
      assume "kept (toLowerCase key)"
      then show ?thesis
        by (simp add: kept_def)
    qed
  qed
  have one: "length (filter (\<lambda>(k, v). k = key) ?out) = 1"
    if "key \<in> {''Host'', ''Cookie'', ''X-ClickHouse-User'', ''X-ClickHouse-Key''}" for key
    using that keys by (simp add: count_key [OF dist]) blast
  have A: "\<forall>key. map_of ?out key =
        (if key = ''Host'' then Some (HStr host)
         else if key = ''Cookie'' then Some (HStr (cname @ ''='' @ cfToken))
         else if key = ''X-ClickHouse-User'' then Some (HStr user)
         else if key = ''X-ClickHouse-Key'' then Some (HStr password)
         else if toLowerCase key \<in>
                   {''proxy-connection'', ''transfer-encoding'', ''host'', ''authorization''}
           then None
         else map_of (req_headers clientReq) key)"
    using look by blast
  have B: "\<forall>(key, v) \<in> set ?out.
          toLowerCase key \<noteq> ''proxy-connection'' \<and> toLowerCase key \<noteq> ''transfer-encoding''
          \<and> toLowerCase key \<noteq> ''authorization''
          \<and> (toLowerCase key = ''host'' \<longrightarrow> key = ''Host'' \<and> v = HStr host)"
  proof (rule ballI)
    fix e assume e: "e \<in> set ?out"
    obtain key v where kv: "e = (key, v)" by (cases e)
    from strip [of key v] e show "case e of (key, v) \<Rightarrow>
          toLowerCase key \<noteq> ''proxy-connection'' \<and> toLowerCase key \<noteq> ''transfer-encoding''
          \<and> toLowerCase key \<noteq> ''authorization''
          \<and> (toLowerCase key = ''host'' \<longrightarrow> key = ''Host'' \<and> v = HStr host)"
      unfolding kv by simp
  qed
  have C: "length (filter (\<lambda>(k, v). k = ''Cookie'') ?out) = 1"
    and U: "length (filter (\<lambda>(k, v). k = ''X-ClickHouse-User'') ?out) = 1"
    and K: "length (filter (\<lambda>(k, v). k = ''X-ClickHouse-Key'') ?out) = 1"
    and H: "length (filter (\<lambda>(k, v). k = ''Host'') ?out) = 1"
    by (rule one, simp)+
  from A B C U K H show ?thesis
    unfolding out by (intro conjI)
qed

text \<open>What a request with a token turns into, for any configuration.\<close>

lemma forwarded_request:
  assumes "getToken proxyConfig now exec s = (Some tok, s', cmds)" and "tok \<noteq> []"
  shows "handle_request proxyConfig now exec s clientReq =
           ([Request Https_module
               \<lparr>hostname = targetHost proxyConfig,
                port = targetPort proxyConfig,
                path = req_url clientReq,
                opt_method = req_method clientReq,
                opt_headers = build_headers proxyConfig tok (req_headers clientReq),
                rejectUnauthorized = True\<rparr>,
             PipeRequestBody], s', cmds)"
  using assms by (simp add: handle_request_def make_options_def)

text \<open>
  C2. When getToken returns null, the handler writes status 500 with content type
  text/plain, ends the response with a fixed text, and makes no outbound request.
\<close>

theorem no_token_no_forward:
  assumes "fst (getToken proxyConfig now exec s) = None"
  shows "fst (handle_request proxyConfig now exec s clientReq) =
           [WriteHead 500 [(''Content-Type'', HStr ''text/plain'')],
            End ''Internal Server Error: Could not obtain authorization token.'']
         \<and> (\<forall>a \<in> set (fst (handle_request proxyConfig now exec s clientReq)). \<not> is_request a)"
proof -
  obtain s' cmds where "getToken proxyConfig now exec s = (None, s', cmds)"
    using assms by (cases "getToken proxyConfig now exec s") auto
  then show ?thesis
    by (simp add: handle_request_def text_plain_def)
qed

theorem no_token_no_forward_witness:
  "fst (getToken example_config 1000 exec_empty initial_state) = None
   \<and> handle_request example_config 1000 exec_empty initial_state example_request =
       ([WriteHead 500 [(''Content-Type'', HStr ''text/plain'')],
         End ''Internal Server Error: Could not obtain authorization token.''],
        \<lparr>cachedToken = None, tokenExpiry = Num 0\<rparr>,
        [''cloudflared access token --app=https://your-clickhouse-host.example.com''])"
proof -
  have a: "fst (getToken example_config 1000 exec_empty initial_state) = None"
    by (simp add: getToken_def example_config_def exec_empty_def initial_state_def trim_def
        is_space_def)
  have b: "snd (handle_request example_config 1000 exec_empty initial_state example_request) =
        (\<lparr>cachedToken = None, tokenExpiry = Num 0\<rparr>,
        [''cloudflared access token --app=https://your-clickhouse-host.example.com''])"
    by (simp add: handle_request_def getToken_def example_config_def exec_empty_def
        initial_state_def trim_def is_space_def token_command_def)
  from no_token_no_forward [OF a, of example_request] a b show ?thesis
    by (simp add: prod_eq_iff)
qed

text \<open>
  C6. The claim is that the outbound connection uses the configured scheme. With
  \<open>targetScheme\<close> set to http, the request is still made with the https module; host,
  port, method and path are the configured and the inbound ones.
\<close>

theorem http_scheme_sent_over_https:
  "targetScheme http_config = Some ''http''
   \<and> fst (handle_request http_config 1000 exec_ok initial_state example_request) =
       [Request Https_module
          \<lparr>hostname = Some ''your-clickhouse-host.example.com'',
           port = Some 443,
           path = ''/?query=SELECT+1'',
           opt_method = ''GET'',
           opt_headers =
             [(''user-agent'', HStr ''curl/8.5.0''), (''accept'', HStr ''*/*''),
              (''Host'', HStr ''your-clickhouse-host.example.com''),
              (''Cookie'', HStr ''CF_Authorization=tok123''),
              (''X-ClickHouse-User'', HStr ''your-username''),
              (''X-ClickHouse-Key'', HStr ''your-password'')],
           rejectUnauthorized = True\<rparr>,
        PipeRequestBody]"
  by (simp add: example_defs eval_defs example_rounds)

section \<open>Upstream response and upstream error\<close>

text \<open>
  C10. The status written to the client is the upstream status code when that is
  present and not zero, and 200 when it is absent or zero; the upstream headers are
  passed with it.
\<close>

theorem relayed_status:
  "on_response proxyRes =
     [WriteHead (case statusCode proxyRes of
                   None \<Rightarrow> 200
                 | Some n \<Rightarrow> if n = 0 then 200 else n) (res_headers proxyRes),
      PipeResponseBody]"
  by (cases "statusCode proxyRes") (simp_all add: on_response_def)

theorem relayed_status_witness:
  "on_response \<lparr>statusCode = Some 404, res_headers = []\<rparr> = [WriteHead 404 [], PipeResponseBody]
   \<and> on_response \<lparr>statusCode = Some 0, res_headers = []\<rparr> = [WriteHead 200 [], PipeResponseBody]
   \<and> on_response \<lparr>statusCode = None, res_headers = []\<rparr> = [WriteHead 200 [], PipeResponseBody]"
  using relayed_status [of "\<lparr>statusCode = Some 404, res_headers = []\<rparr>"]
        relayed_status [of "\<lparr>statusCode = Some 0, res_headers = []\<rparr>"]
        relayed_status [of "\<lparr>statusCode = None, res_headers = []\<rparr>"]
  by simp

text \<open>
  C7, as stated, asks that nothing more is written once the response headers have been
  sent. The error listener passes its text to \<^verbatim>\<open>clientRes.end\<close> in that case too.
\<close>

theorem error_after_headers_writes_text:
  "body_data (on_error True ''socket hang up'') \<noteq> []"
  by (simp add: on_error_def)

text \<open>
  C7, amended. On an error of the outbound request: when no response headers have been
  sent, the client gets status 502 with content type text/plain and the body
  ``Bad Gateway: '' followed by the error message; when they have been sent, no second
  head is written and the response is ended with that same text as its last body data.
\<close>

theorem upstream_error_response:
  "(\<not> headersSent \<longrightarrow>
      on_error headersSent err_message =
        [WriteHead 502 [(''Content-Type'', HStr ''text/plain'')],
         End (''Bad Gateway: '' @ err_message)])
   \<and> (headersSent \<longrightarrow>
      on_error headersSent err_message = [End (''Bad Gateway: '' @ err_message)])
   \<and> body_data (on_error headersSent err_message) = ''Bad Gateway: '' @ err_message"
  by (simp add: on_error_def text_plain_def)

theorem upstream_error_response_witness:
  "on_error False ''connect ECONNREFUSED 127.0.0.1:443'' =
     [WriteHead 502 [(''Content-Type'', HStr ''text/plain'')],
      End ''Bad Gateway: connect ECONNREFUSED 127.0.0.1:443'']
   \<and> on_error True ''socket hang up'' = [End ''Bad Gateway: socket hang up'']"
  using upstream_error_response [of False "''connect ECONNREFUSED 127.0.0.1:443''"]
    upstream_error_response [of True "''socket hang up''"]
  by simp

section \<open>Loading the configuration\<close>

lemma check_required_first:
  assumes "field \<in> set fs" and "\<not> has_field field p"
  shows "\<exists>before missing after.
           fs = before @ missing # after \<and> (\<forall>present \<in> set before. has_field present p)
           \<and> \<not> has_field missing p \<and> check_required fs p = Some (FieldMissing missing)"
  using assms
proof (induction fs)
  case Nil
  then show ?case by simp
next
  case (Cons f fs)
  show ?case
  proof (cases "has_field f p")
    case False
    then have "f # fs = [] @ f # fs \<and> (\<forall>present \<in> set []. has_field present p)
        \<and> \<not> has_field f p \<and> check_required (f # fs) p = Some (FieldMissing f)"
      by simp
    then show ?thesis by blast
  next
    case True
    with Cons.prems have "field \<in> set fs" by auto
    from Cons.IH [OF this Cons.prems(2)] obtain before missing after
      where "fs = before @ missing # after" "\<forall>present \<in> set before. has_field present p"
        "\<not> has_field missing p" "check_required fs p = Some (FieldMissing missing)"
      by blast
    with True have "f # fs = (f # before) @ missing # after
        \<and> (\<forall>present \<in> set (f # before). has_field present p)
        \<and> \<not> has_field missing p \<and> check_required (f # fs) p = Some (FieldMissing missing)"
      by simp
    then show ?thesis by blast
  qed
qed

lemma check_required_only:
  assumes "field \<in> set fs" and "\<not> has_field field p"
    and "\<forall>other \<in> set fs. other \<noteq> field \<longrightarrow> has_field other p"
  shows "check_required fs p = Some (FieldMissing field)"
  using assms by (induction fs) auto

text \<open>
  C8, as stated, counts \<open>targetScheme\<close> among the keys whose absence stops the
  start-up. A configuration without it loads, and the server listens.
\<close>

theorem missing_targetScheme_accepted:
  "targetScheme no_scheme_config = None
   \<and> loadConfig (Some no_scheme_config) = Inr no_scheme_config
   \<and> fst (main (Some no_scheme_config) 1000 exec_ok) = [Listen (Some 9090) ''0.0.0.0'']"
  by (simp add: example_defs eval_defs example_rounds)

text \<open>
  C8, amended. When one of the six keys listenPort, targetHost, targetPort,
  cloudflaredAppUrl, clickhouseUsername, clickhousePassword is absent from the proxy
  section, loadConfig throws an error that names the first absent one in that order (all
  keys before it in the list are present; it is the absent key itself when that is the
  only one), and main exits with code 1 without listening.
\<close>

theorem missing_required_field_is_fatal:
  assumes "field \<in> set required" and "\<not> has_field field p"
  shows "(\<exists>before missing after.
            required = before @ missing # after
            \<and> (\<forall>present \<in> set before. has_field present p)
            \<and> \<not> has_field missing p
            \<and> loadConfig (Some p) = Inl (FieldMissing missing))
         \<and> ((\<forall>other \<in> set required. other \<noteq> field \<longrightarrow> has_field other p)
              \<longrightarrow> loadConfig (Some p) = Inl (FieldMissing field))
         \<and> fst (main (Some p) now exec) = [Exit 1]"
proof -
  from check_required_first [OF assms] obtain before missing after
    where m: "required = before @ missing # after"
      "\<forall>present \<in> set before. has_field present p" "\<not> has_field missing p"
      "check_required required p = Some (FieldMissing missing)"
    by blast
  then have l: "loadConfig (Some p) = Inl (FieldMissing missing)"
    by (simp add: loadConfig_def)
  then have "fst (main (Some p) now exec) = [Exit 1]"
    by (simp add: main_def)
  moreover have "loadConfig (Some p) = Inl (FieldMissing field)"
    if "\<forall>other \<in> set required. other \<noteq> field \<longrightarrow> has_field other p"
    using check_required_only [OF assms that] by (simp add: loadConfig_def)
  ultimately show ?thesis
    using m l by blast
qed

theorem missing_required_field_is_fatal_witness:
  "''clickhousePassword'' \<in> set required
   \<and> \<not> has_field ''clickhousePassword'' two_missing_config
   \<and> \<not> has_field ''targetHost'' two_missing_config
   \<and> loadConfig (Some two_missing_config) = Inl (FieldMissing ''targetHost'')
   \<and> message (FieldMissing ''targetHost'') =
       ''Required field '' @ [CHR 0x27] @ ''targetHost'' @ [CHR 0x27] @
       '' is missing from proxy configuration.''
   \<and> fst (main (Some two_missing_config) 1000 exec_ok) = [Exit 1]
   \<and> loadConfig (Some no_host_config) = Inl (FieldMissing ''targetHost'')"
proof -
  have a: "''clickhousePassword'' \<in> set required" and a': "''targetHost'' \<in> set required"
    by (simp_all add: required_def)
  have b: "\<not> has_field ''clickhousePassword'' two_missing_config"
    and b': "\<not> has_field ''targetHost'' two_missing_config"
    and b'': "\<not> has_field ''targetHost'' no_host_config"
    by (simp_all add: has_field_def two_missing_config_def no_host_config_def example_config_def)
  have c: "\<forall>other \<in> set required. other \<noteq> ''targetHost'' \<longrightarrow> has_field other no_host_config"
    by (simp add: required_def has_field_def no_host_config_def example_config_def)
  have present: "has_field ''listenPort'' two_missing_config"
    by (simp add: has_field_def two_missing_config_def example_config_def)
  note t = missing_required_field_is_fatal [OF a b, of 1000 exec_ok]
  from t obtain before missing after
    where dec: "required = before @ missing # after"
      and pre: "\<forall>present \<in> set before. has_field present two_missing_config"
      and mis: "\<not> has_field missing two_missing_config"
      and err: "loadConfig (Some two_missing_config) = Inl (FieldMissing missing)"
    by blast
  have "missing = ''targetHost''"
  proof (cases before)
    case Nil
    with dec have "missing = ''listenPort''"
      by (simp add: required_def)
    with mis present show ?thesis by simp
  next
    case (Cons f before')
    show ?thesis
    proof (cases before')
      case Nil
      with dec Cons show ?thesis
        by (simp add: required_def)
    next
      case (Cons g before'')
      with dec \<open>before = f # before'\<close> have "g = ''targetHost''"
        by (simp add: required_def)
      with pre Cons \<open>before = f # before'\<close> b' show ?thesis
        by simp
    qed
  qed
  with err have first: "loadConfig (Some two_missing_config) = Inl (FieldMissing ''targetHost'')"
    by simp
  from t have exit: "fst (main (Some two_missing_config) 1000 exec_ok) = [Exit 1]"
    by blast
  from missing_required_field_is_fatal [OF a' b'', of 1000 exec_ok] c
  have only: "loadConfig (Some no_host_config) = Inl (FieldMissing ''targetHost'')"
    by blast
  from a b b' first exit only show ?thesis
    by simp
qed

text \<open>
  C9. The claim is that an absent tokenCacheDurationMs counts as 300000 and an absent
  cookieName as CF\_Authorization. The code applies no default: a configuration without
  the two keys is loaded as it is, the expiry after a fetch at time 1000 is NaN where
  300000 gives 301000, and the cookie is named undefined where CF\_Authorization is meant.
\<close>

theorem absent_optional_keys_get_no_default:
  "tokenCacheDurationMs bare_config = None \<and> cookieName bare_config = None
   \<and> loadConfig (Some bare_config) = Inr bare_config
   \<and> getToken bare_config 1000 exec_ok initial_state =
       (Some ''tok123'', \<lparr>cachedToken = Some ''tok123'', tokenExpiry = NaN\<rparr>,
        [''cloudflared access token --app=https://your-clickhouse-host.example.com''])
   \<and> getToken (bare_config\<lparr>tokenCacheDurationMs := Some (Num 300000)\<rparr>) 1000 exec_ok initial_state =
       (Some ''tok123'', \<lparr>cachedToken = Some ''tok123'', tokenExpiry = Num 301000\<rparr>,
        [''cloudflared access token --app=https://your-clickhouse-host.example.com''])
   \<and> map_of (build_headers bare_config ''tok123'' []) ''Cookie'' = Some (HStr ''undefined=tok123'')
   \<and> map_of (build_headers (bare_config\<lparr>cookieName := Some ''CF_Authorization''\<rparr>) ''tok123'' [])
        ''Cookie'' = Some (HStr ''CF_Authorization=tok123'')"
  by (simp add: example_defs eval_defs example_rounds)

end
